theory Spec2Isabelle
  imports Main "HOL-Library.Word"
begin

section \<open>Primitive types\<close>

text \<open>
  Modelled from the spec: the aliases of \<^verbatim>\<open>Usings.h\<close> (Price, Quantity, OrderId) are not
  among the sources. The engine only compares prices and never computes with them, so a
  price is an \<open>int\<close> (every fixed-width integer type embeds into it keeping the order).
  Quantities are added and subtracted, so a quantity is an unsigned machine word
  \<open>'w word\<close> whose width \<open>'w\<close> stays a parameter. Order ids are only compared for
  equality.
\<close>

type_synonym Price = int
type_synonym OrderId = nat

text \<open>
  Modelled from the spec: \<^verbatim>\<open>Side.h\<close> and \<^verbatim>\<open>OrderType.h\<close> are not among the sources; the
  constructors are the ones \<^verbatim>\<open>Orderbook.cpp\<close> and \<^verbatim>\<open>RiskManager.h\<close> name.
\<close>

datatype Side = Buy | Sell

datatype OrderType = GoodTillCancel | FillAndKill | FillOrKill | Market

text \<open>
  The exceptions the modelled code can raise, and the places where it leaves defined
  behaviour (\<^verbatim>\<open>front()\<close> of an empty list, \<^verbatim>\<open>% 0\<close>, an index past the buffer).
\<close>

datatype error = LogicError | OutOfRange | UndefinedBehaviour

section \<open>Order (Order.h)\<close>

text \<open>
  Field names are the source's without the trailing underscore. The record is
  polymorphic in the quantity type; every function uses it at \<open>'w word\<close>.
\<close>

record 'q Order =
  orderType :: OrderType
  orderId :: OrderId
  side :: Side
  price :: Price
  initialQuantity :: 'q
  remainingQuantity :: 'q

definition IsFilled :: "('w::len) word Order \<Rightarrow> bool" where
  "IsFilled ord = (remainingQuantity ord = 0)"

definition GetFilledQuantity :: "('w::len) word Order \<Rightarrow> 'w word" where
  "GetFilledQuantity ord = initialQuantity ord - remainingQuantity ord"

text \<open>\<^verbatim>\<open>Fill\<close> throws \<^verbatim>\<open>std::logic_error\<close> when asked for more than what remains.\<close>

definition Fill :: "('w::len) word Order \<Rightarrow> 'w word \<Rightarrow> error + 'w word Order" where
  "Fill ord qty =
     (if qty > remainingQuantity ord then Inl LogicError
      else Inr (ord\<lparr>remainingQuantity := remainingQuantity ord - qty\<rparr>))"

definition ToGoodTillCancel :: "('w::len) word Order \<Rightarrow> Price \<Rightarrow> error + 'w word Order" where
  "ToGoodTillCancel ord p =
     (if orderType ord \<noteq> Market then Inl LogicError
      else Inr (ord\<lparr>price := p, orderType := GoodTillCancel\<rparr>))"

definition Reset ::
  "OrderType \<Rightarrow> OrderId \<Rightarrow> Side \<Rightarrow> Price \<Rightarrow> ('w::len) word \<Rightarrow> 'w word Order" where
  "Reset t i s p q =
     \<lparr>orderType = t, orderId = i, side = s, price = p,
      initialQuantity = q, remainingQuantity = q\<rparr>"

section \<open>Risk gate (RiskManager.h)\<close>

record 'q Config =
  maxOrderQuantity :: 'q
  maxPrice :: Price
  minPrice :: Price

definition default_Config :: "('w::len) word Config" where
  "default_Config = \<lparr>maxOrderQuantity = 10000, maxPrice = 1000000, minPrice = 1\<rparr>"

datatype Result = Allowed | RejectedMaxQty | RejectedPriceRange

definition CheckOrder :: "('w::len) word Config \<Rightarrow> 'w word Order \<Rightarrow> Result" where
  "CheckOrder config ord =
     (if initialQuantity ord > maxOrderQuantity config then RejectedMaxQty
      else if orderType ord \<noteq> Market
              \<and> (price ord > maxPrice config \<or> price ord < minPrice config)
           then RejectedPriceRange
      else Allowed)"

section \<open>SPSC ring buffer (LockFreeQueue.h)\<close>

text \<open>
  The indices are \<^verbatim>\<open>size_t\<close>; they are modelled as \<open>nat\<close>: both are only ever
  assigned \<open>0\<close> or a value reduced modulo the capacity, so \<open>currentTail + 1\<close> never reaches
  the width of \<^verbatim>\<open>size_t\<close>. The atomics are read and written in program order (one thread
  at a time). \<^verbatim>\<open>Pop\<close>'s out-parameter is the returned option. The constructor
  value-initialises the buffer; \<open>d\<close> is that initial element.
\<close>

record 'a LockFreeQueue =
  buffer :: "'a list"
  capacity :: nat
  head :: nat
  tail :: nat

definition new_LockFreeQueue :: "nat \<Rightarrow> 'a \<Rightarrow> 'a LockFreeQueue" where
  "new_LockFreeQueue n d = \<lparr>buffer = replicate n d, capacity = n, head = 0, tail = 0\<rparr>"

definition Push :: "'a LockFreeQueue \<Rightarrow> 'a \<Rightarrow> error + (bool \<times> 'a LockFreeQueue)" where
  "Push q item =
     (let currentTail = tail q in
      if capacity q = 0 then Inl UndefinedBehaviour
      else let nextTail = (currentTail + 1) mod capacity q in
        if nextTail = head q then Inr (False, q)
        else if length (buffer q) \<le> currentTail then Inl UndefinedBehaviour
        else Inr (True, q\<lparr>buffer := (buffer q)[currentTail := item], tail := nextTail\<rparr>))"

definition Pop :: "'a LockFreeQueue \<Rightarrow> error + ('a option \<times> 'a LockFreeQueue)" where
  "Pop q =
     (let currentHead = head q in
      if currentHead = tail q then Inr (None, q)
      else if length (buffer q) \<le> currentHead then Inl UndefinedBehaviour
      else if capacity q = 0 then Inl UndefinedBehaviour
      else Inr (Some (buffer q ! currentHead), q\<lparr>head := (currentHead + 1) mod capacity q\<rparr>))"

definition IsEmpty :: "'a LockFreeQueue \<Rightarrow> bool" where
  "IsEmpty q = (head q = tail q)"

definition Size :: "'a LockFreeQueue \<Rightarrow> nat" where
  "Size q = (if tail q \<ge> head q then tail q - head q else capacity q - (head q - tail q))"

definition Capacity :: "'a LockFreeQueue \<Rightarrow> nat" where
  "Capacity q = capacity q"

text \<open>A run of pushes, as a producer that never sees a pop would issue them.\<close>

fun push_all :: "'a LockFreeQueue \<Rightarrow> 'a list \<Rightarrow> error + (bool list \<times> 'a LockFreeQueue)" where
  "push_all q [] = Inr ([], q)"
| "push_all q (x # xs) =
     (case Push q x of
        Inl e \<Rightarrow> Inl e
      | Inr (b, q') \<Rightarrow>
          (case push_all q' xs of Inl e \<Rightarrow> Inl e | Inr (bs, q'') \<Rightarrow> Inr (b # bs, q'')))"

text \<open>
  A sequence of pushes and pops applied to a queue, each result being dropped: the
  states a queue can be in are the ones such a sequence leads to from the constructor.
\<close>

datatype 'a queue_op = Op_Push 'a | Op_Pop

fun run_ops :: "'a queue_op list \<Rightarrow> 'a LockFreeQueue \<Rightarrow> error + 'a LockFreeQueue" where
  "run_ops [] q = Inr q"
| "run_ops (Op_Push x # ops) q =
     (case Push q x of Inl e \<Rightarrow> Inl e | Inr (b, q') \<Rightarrow> run_ops ops q')"
| "run_ops (Op_Pop # ops) q =
     (case Pop q of Inl e \<Rightarrow> Inl e | Inr (r, q') \<Rightarrow> run_ops ops q')"

definition queue_inv :: "nat \<Rightarrow> 'a LockFreeQueue \<Rightarrow> bool" where
  "queue_inv C q \<longleftrightarrow>
     capacity q = C \<and> length (buffer q) = C \<and> head q < C \<and> tail q < C"

text \<open>The elements held, oldest first.\<close>

definition queue_contents :: "'a LockFreeQueue \<Rightarrow> 'a list" where
  "queue_contents q = map (\<lambda>i. buffer q ! ((head q + i) mod capacity q)) [0..<Size q]"


section \<open>Object pool (ObjectPool.h)\<close>

text \<open>
  An \<^verbatim>\<open>OrderPointer\<close> is a \<^verbatim>\<open>shared_ptr<Order>\<close>: the book's lists, the id index, the
  pool and the requests all refer to the same mutable object. The model keeps the
  objects in an explicit store, addressed by natural numbers; \<^verbatim>\<open>new Order()\<close> takes
  the next unused address and value-initialises the object (all fields zero; the first
  enumerators stand for the zero of the two enums).
\<close>

type_synonym OrderPointer = nat

record 'q Memory =
  objects :: "OrderPointer \<Rightarrow> 'q Order"
  next_free :: OrderPointer

definition zero_Order :: "('w::len) word Order" where
  "zero_Order = \<lparr>orderType = GoodTillCancel, orderId = 0, side = Buy, price = 0,
                  initialQuantity = 0, remainingQuantity = 0\<rparr>"

definition new_Order :: "('w::len) word Memory \<Rightarrow> OrderPointer \<times> 'w word Memory" where
  "new_Order m =
     (next_free m,
      m\<lparr>objects := (objects m)(next_free m := zero_Order), next_free := Suc (next_free m)\<rparr>)"

text \<open>The pool is the vector \<^verbatim>\<open>pool_\<close> of free objects; its back is the last element.\<close>

record ObjectPool =
  pool :: "OrderPointer list"

fun new_ObjectPool_loop ::
  "nat \<Rightarrow> ObjectPool \<Rightarrow> ('w::len) word Memory \<Rightarrow> ObjectPool \<times> 'w word Memory" where
  "new_ObjectPool_loop 0 p m = (p, m)"
| "new_ObjectPool_loop (Suc n) p m =
     (let (obj, m') = new_Order m
      in new_ObjectPool_loop n (p\<lparr>pool := pool p @ [obj]\<rparr>) m')"

definition new_ObjectPool ::
  "nat \<Rightarrow> ('w::len) word Memory \<Rightarrow> ObjectPool \<times> 'w word Memory" where
  "new_ObjectPool initialSize m = new_ObjectPool_loop initialSize \<lparr>pool = []\<rparr> m"

definition Acquire ::
  "ObjectPool \<Rightarrow> ('w::len) word Memory \<Rightarrow> OrderPointer \<times> ObjectPool \<times> 'w word Memory" where
  "Acquire p m =
     (if pool p = []
      then (let (obj, m') = new_Order m in (obj, p, m'))
      else (last (pool p), p\<lparr>pool := butlast (pool p)\<rparr>, m))"

definition Release :: "ObjectPool \<Rightarrow> OrderPointer \<Rightarrow> ObjectPool" where
  "Release p obj = p\<lparr>pool := pool p @ [obj]\<rparr>"

section \<open>Trades, modifications, requests\<close>

text \<open>
  Modelled from the spec: \<^verbatim>\<open>Trade.h\<close> and \<^verbatim>\<open>OrderModify.h\<close> are not among the sources.
  A \<open>TradeInfo\<close> is the triple of order id, price and quantity that \<^verbatim>\<open>MatchOrders\<close> builds, a
  \<open>Trade\<close> the bid's triple followed by the ask's, an \<open>OrderModify\<close> the four values
  \<^verbatim>\<open>HandleModifyOrder\<close> reads (order id, side, price, quantity).
\<close>

datatype 'q TradeInfo = TradeInfo OrderId Price 'q

datatype 'q Trade = Trade "'q TradeInfo" "'q TradeInfo"

datatype 'q OrderModify = OrderModify OrderId Side Price 'q

datatype RequestType = Type_Add | Type_Cancel | Type_Modify

record 'q Request =
  req_type :: RequestType
  req_order :: OrderPointer
  req_orderId :: OrderId
  req_modify :: "'q OrderModify"
  req_timestamp :: nat

section \<open>The book (Orderbook.h, Orderbook.cpp)\<close>

subsection \<open>Containers\<close>

text \<open>
  \<^verbatim>\<open>std::map<Price, OrderPointers, Compare>\<close> is an association list kept in the order
  of its comparator \<open>lt\<close>, so that \<^verbatim>\<open>begin()\<close> is the first pair and \<^verbatim>\<open>rbegin()\<close> the last.
  The two \<^verbatim>\<open>unordered_map\<close>s use the same lists with the comparator that never holds
  (new keys go to the end); the engine iterates only over \<^verbatim>\<open>data_\<close>, in \<^verbatim>\<open>CanFullyFill\<close>.
\<close>

fun map_insert :: "('k \<Rightarrow> 'k \<Rightarrow> bool) \<Rightarrow> 'k \<Rightarrow> 'v \<Rightarrow> ('k \<times> 'v) list \<Rightarrow> ('k \<times> 'v) list" where
  "map_insert lt k v [] = [(k, v)]"
| "map_insert lt k v ((k', v') # m) =
     (if k = k' then (k', v') # m
      else if lt k k' then (k, v) # (k', v') # m
      else (k', v') # map_insert lt k v m)"

text \<open>\<^verbatim>\<open>m[k]\<close>: the value at \<open>k\<close>, after inserting the default \<open>d\<close> when the key is new.\<close>

definition map_subscript ::
  "('k \<Rightarrow> 'k \<Rightarrow> bool) \<Rightarrow> 'v \<Rightarrow> ('k \<times> 'v) list \<Rightarrow> 'k \<Rightarrow> 'v \<times> ('k \<times> 'v) list" where
  "map_subscript lt d m k =
     (case map_of m k of Some v \<Rightarrow> (v, m) | None \<Rightarrow> (d, map_insert lt k d m))"

text \<open>Writing through the reference that \<^verbatim>\<open>m[k]\<close> or \<^verbatim>\<open>m.at(k)\<close> returned.\<close>

definition map_assign :: "'k \<Rightarrow> 'v \<Rightarrow> ('k \<times> 'v) list \<Rightarrow> ('k \<times> 'v) list" where
  "map_assign k v m = map (\<lambda>(k', v'). if k' = k then (k', v) else (k', v')) m"

definition map_erase :: "'k \<Rightarrow> ('k \<times> 'v) list \<Rightarrow> ('k \<times> 'v) list" where
  "map_erase k m = filter (\<lambda>(k', v'). k' \<noteq> k) m"

definition map_contains :: "('k \<times> 'v) list \<Rightarrow> 'k \<Rightarrow> bool" where
  "map_contains m k = (map_of m k \<noteq> None)"

definition unordered :: "'k \<Rightarrow> 'k \<Rightarrow> bool" where
  "unordered a b = False"

subsection \<open>State\<close>

record 'q LevelData =
  quantity :: 'q
  count :: 'q

datatype Action = Action_Add | Action_Remove | Action_Match

text \<open>
  The members of \<^verbatim>\<open>class Orderbook\<close> that the request handlers read and write.
  \<open>bids\<close> is ordered by \<^verbatim>\<open>std::greater\<close>, \<open>asks\<close> by \<^verbatim>\<open>std::less\<close>. An
  \<^verbatim>\<open>OrderEntry\<close> pairs the pointer with the list iterator of its node; the model keeps
  the pointer, which names the node, and \<^verbatim>\<open>erase(iterator)\<close> removes that node.
\<close>

record 'q Book =
  data :: "(Price \<times> 'q LevelData) list"
  bids :: "(Price \<times> OrderPointer list) list"
  asks :: "(Price \<times> OrderPointer list) list"
  orders :: "(OrderId \<times> OrderPointer) list"
  orderPool :: ObjectPool
  memory :: "'q Memory"

definition deref :: "'q Book \<Rightarrow> OrderPointer \<Rightarrow> 'q Order" where
  "deref b p = objects (memory b) p"

definition store :: "OrderPointer \<Rightarrow> 'q Order \<Rightarrow> 'q Book \<Rightarrow> 'q Book" where
  "store p ord b = b\<lparr>memory := (memory b)\<lparr>objects := (objects (memory b))(p := ord)\<rparr>\<rparr>"

subsection \<open>Level aggregates\<close>

text \<open>
  \<^verbatim>\<open>count_\<close> has the unsigned type \<^verbatim>\<open>Quantity\<close>: adding \<open>-1\<close> wraps, as word
  arithmetic does.
\<close>

definition UpdateLevelData ::
  "Price \<Rightarrow> ('w::len) word \<Rightarrow> Action \<Rightarrow> 'w word Book \<Rightarrow> 'w word Book" where
  "UpdateLevelData p qty action b =
     (let (ld, d) = map_subscript unordered \<lparr>quantity = 0, count = 0\<rparr> (data b) p;
          ld1 = ld\<lparr>count := count ld +
                   (if action = Action_Remove then - 1 else if action = Action_Add then 1 else 0)\<rparr>;
          ld2 = (if action = Action_Remove \<or> action = Action_Match
                 then ld1\<lparr>quantity := quantity ld1 - qty\<rparr>
                 else ld1\<lparr>quantity := quantity ld1 + qty\<rparr>)
      in if count ld2 = 0 then b\<lparr>data := map_erase p d\<rparr>
         else b\<lparr>data := map_assign p ld2 d\<rparr>)"

definition OnOrderCancelled :: "OrderPointer \<Rightarrow> ('w::len) word Book \<Rightarrow> 'w word Book" where
  "OnOrderCancelled ord b =
     (let b1 = UpdateLevelData (price (deref b ord)) (remainingQuantity (deref b ord))
                 Action_Remove b
      in b1\<lparr>orderPool := Release (orderPool b1) ord\<rparr>)"

definition OnOrderAdded :: "OrderPointer \<Rightarrow> ('w::len) word Book \<Rightarrow> 'w word Book" where
  "OnOrderAdded ord b =
     UpdateLevelData (price (deref b ord)) (initialQuantity (deref b ord)) Action_Add b"

definition OnOrderMatched ::
  "Price \<Rightarrow> ('w::len) word \<Rightarrow> bool \<Rightarrow> 'w word Book \<Rightarrow> 'w word Book" where
  "OnOrderMatched p qty isFullyFilled b =
     UpdateLevelData p qty (if isFullyFilled then Action_Remove else Action_Match) b"

subsection \<open>Cancel\<close>

text \<open>
  \<^verbatim>\<open>at(price)\<close> throws \<^verbatim>\<open>std::out_of_range\<close> on a missing level; erasing through an
  iterator whose node is not in the list is undefined. The blocks that would erase an
  emptied level are commented out in the source, so the level stays.
\<close>

definition CancelOrderInternal ::
  "OrderId \<Rightarrow> ('w::len) word Book \<Rightarrow> error + 'w word Book" where
  "CancelOrderInternal oid b =
     (case map_of (orders b) oid of
        None \<Rightarrow> Inr b
      | Some ord \<Rightarrow>
          (let b1 = b\<lparr>orders := map_erase oid (orders b)\<rparr>;
               p = price (deref b1 ord)
           in if side (deref b1 ord) = Sell
              then (case map_of (asks b1) p of
                      None \<Rightarrow> Inl OutOfRange
                    | Some lst \<Rightarrow>
                        if ord \<notin> set lst then Inl UndefinedBehaviour
                        else Inr (OnOrderCancelled ord
                                    (b1\<lparr>asks := map_assign p (remove1 ord lst) (asks b1)\<rparr>)))
              else (case map_of (bids b1) p of
                      None \<Rightarrow> Inl OutOfRange
                    | Some lst \<Rightarrow>
                        if ord \<notin> set lst then Inl UndefinedBehaviour
                        else Inr (OnOrderCancelled ord
                                    (b1\<lparr>bids := map_assign p (remove1 ord lst) (bids b1)\<rparr>)))))"

subsection \<open>Pre-checks of Add\<close>

text \<open>Both branches of \<^verbatim>\<open>CanMatch\<close> return false; the price comparison is commented out.\<close>

definition CanMatch :: "Side \<Rightarrow> Price \<Rightarrow> ('w::len) word Book \<Rightarrow> bool" where
  "CanMatch sd p b = (if sd = Buy then False else False)"

fun CanFullyFill_loop ::
  "Side \<Rightarrow> Price \<Rightarrow> Price option \<Rightarrow> ('w::len) word \<Rightarrow> (Price \<times> 'w word LevelData) list \<Rightarrow> bool" where
  "CanFullyFill_loop sd p threshold qty [] = False"
| "CanFullyFill_loop sd p threshold qty ((levelPrice, levelData) # rest) =
     (if (case threshold of None \<Rightarrow> False
          | Some t \<Rightarrow> (sd = Buy \<and> t > levelPrice) \<or> (sd = Sell \<and> t < levelPrice))
      then CanFullyFill_loop sd p threshold qty rest
      else if (sd = Buy \<and> levelPrice > p) \<or> (sd = Sell \<and> levelPrice < p)
      then CanFullyFill_loop sd p threshold qty rest
      else if qty \<le> quantity levelData then True
      else CanFullyFill_loop sd p threshold (qty - quantity levelData) rest)"

definition CanFullyFill ::
  "Side \<Rightarrow> Price \<Rightarrow> ('w::len) word \<Rightarrow> 'w word Book \<Rightarrow> error + bool" where
  "CanFullyFill sd p qty b =
     (if \<not> CanMatch sd p b then Inr False
      else if sd = Buy
      then (case asks b of
              [] \<Rightarrow> Inl UndefinedBehaviour
            | (askPrice, _) # _ \<Rightarrow> Inr (CanFullyFill_loop sd p (Some askPrice) qty (data b)))
      else (case bids b of
              [] \<Rightarrow> Inl UndefinedBehaviour
            | (bidPrice, _) # _ \<Rightarrow> Inr (CanFullyFill_loop sd p (Some bidPrice) qty (data b))))"

subsection \<open>Matching\<close>

text \<open>
  The two fills at the top of the inner \<^verbatim>\<open>while\<close> of \<^verbatim>\<open>MatchOrders\<close>: both head orders
  are filled by the smaller of their remaining quantities, the bid first. The second
  fill reads the store the first one wrote.
\<close>

definition fill_heads ::
  "OrderPointer \<Rightarrow> OrderPointer \<Rightarrow> ('w::len) word Book \<Rightarrow> error + ('w word \<times> 'w word Book)" where
  "fill_heads bid ask b =
     (let qty = min (remainingQuantity (deref b bid)) (remainingQuantity (deref b ask))
      in case Fill (deref b bid) qty of
           Inl e \<Rightarrow> Inl e
         | Inr bidObj \<Rightarrow>
             (let b1 = store bid bidObj b
              in case Fill (deref b1 ask) qty of
                   Inl e \<Rightarrow> Inl e
                 | Inr askObj \<Rightarrow> Inr (qty, store ask askObj b1)))"

text \<open>
  One pass through the body of the inner \<^verbatim>\<open>while\<close>: \<^verbatim>\<open>bids\<close> and \<^verbatim>\<open>asks\<close> are the
  lists of the first level of each map. After the fills a filled head is popped, dropped
  from the id index and released to the pool; the trade is recorded at each order's own
  price; the aggregates of both prices are updated. The objects are read through the
  store, as the source reads them through the pointers.
\<close>

definition MatchOrders_cross ::
  "('w::len) word Book \<Rightarrow> error + ('w word Trade \<times> 'w word Book)" where
  "MatchOrders_cross b =
     (case bids b of
        [] \<Rightarrow> Inl UndefinedBehaviour
      | (bidPrice, bl) # brest \<Rightarrow>
     (case asks b of
        [] \<Rightarrow> Inl UndefinedBehaviour
      | (askPrice, al) # arest \<Rightarrow>
     (case bl of
        [] \<Rightarrow> Inl UndefinedBehaviour
      | bid # bl' \<Rightarrow>
     (case al of
        [] \<Rightarrow> Inl UndefinedBehaviour
      | ask # al' \<Rightarrow>
     (case fill_heads bid ask b of
        Inl e \<Rightarrow> Inl e
      | Inr (qty, b2) \<Rightarrow>
     (let b3 = (if IsFilled (deref b2 bid)
                then b2\<lparr>bids := (bidPrice, bl') # brest,
                        orders := map_erase (orderId (deref b2 bid)) (orders b2),
                        orderPool := Release (orderPool b2) bid\<rparr>
                else b2);
          b4 = (if IsFilled (deref b3 ask)
                then b3\<lparr>asks := (askPrice, al') # arest,
                        orders := map_erase (orderId (deref b3 ask)) (orders b3),
                        orderPool := Release (orderPool b3) ask\<rparr>
                else b3);
          trade = Trade (TradeInfo (orderId (deref b4 bid)) (price (deref b4 bid)) qty)
                        (TradeInfo (orderId (deref b4 ask)) (price (deref b4 ask)) qty);
          b5 = OnOrderMatched (price (deref b4 bid)) qty (IsFilled (deref b4 bid)) b4;
          b6 = OnOrderMatched (price (deref b5 ask)) qty (IsFilled (deref b5 ask)) b5
      in Inr (trade, b6)))))))"

text \<open>The guard of the inner loop: both first levels hold an order.\<close>

definition heads_present :: "'q Book \<Rightarrow> bool" where
  "heads_present b =
     (case bids b of
        (bidPrice, bid # bl') # brest \<Rightarrow>
          (case asks b of (askPrice, ask # al') # arest \<Rightarrow> True | _ \<Rightarrow> False)
      | _ \<Rightarrow> False)"

text \<open>The number of orders at the two first levels; each pass removes at least one.\<close>

definition heads_size :: "'q Book \<Rightarrow> nat" where
  "heads_size b =
     (case bids b of [] \<Rightarrow> 0 | (bidPrice, bl) # brest \<Rightarrow> length bl)
     + (case asks b of [] \<Rightarrow> 0 | (askPrice, al) # arest \<Rightarrow> length al)"

text \<open>
  Facts about one pass that the termination of the inner loop rests on: the aggregates
  leave the maps and the store alone, and after the two fills one of the heads is filled.
\<close>

lemma UpdateLevelData_frame [simp]:
  "bids (UpdateLevelData p q a b) = bids b"
  "asks (UpdateLevelData p q a b) = asks b"
  "orders (UpdateLevelData p q a b) = orders b"
  "orderPool (UpdateLevelData p q a b) = orderPool b"
  "memory (UpdateLevelData p q a b) = memory b"
  by (simp_all add: UpdateLevelData_def Let_def split: prod.splits)

lemma OnOrderMatched_frame [simp]:
  "bids (OnOrderMatched p q f b) = bids b"
  "asks (OnOrderMatched p q f b) = asks b"
  "orders (OnOrderMatched p q f b) = orders b"
  "orderPool (OnOrderMatched p q f b) = orderPool b"
  "memory (OnOrderMatched p q f b) = memory b"
  by (simp_all add: OnOrderMatched_def)

lemma deref_frame [simp]:
  "deref (OnOrderMatched p q f b) x = deref b x"
  "deref (b\<lparr>bids := bs\<rparr>) x = deref b x"
  "deref (b\<lparr>asks := as\<rparr>) x = deref b x"
  "deref (b\<lparr>orders := os\<rparr>) x = deref b x"
  "deref (b\<lparr>orderPool := pl\<rparr>) x = deref b x"
  "deref (b\<lparr>data := d\<rparr>) x = deref b x"
  by (simp_all add: deref_def)

lemma deref_store [simp]: "deref (store p v b) x = (if x = p then v else deref b x)"
  by (simp add: deref_def store_def)

lemma store_frame [simp]:
  "bids (store p v b) = bids b"
  "asks (store p v b) = asks b"
  "orders (store p v b) = orders b"
  "orderPool (store p v b) = orderPool b"
  "data (store p v b) = data b"
  by (simp_all add: store_def)

lemma Fill_Inr:
  fixes ord :: "('w::len) word Order"
  assumes "Fill ord q = Inr ord'"
  shows "q \<le> remainingQuantity ord" and "ord' = ord\<lparr>remainingQuantity := remainingQuantity ord - q\<rparr>"
  using assms by (simp_all add: Fill_def not_less split: if_splits)

lemma fill_heads_Inr:
  fixes b :: "('w::len) word Book"
  assumes "fill_heads bid ask b = Inr (qty, b2)"
  shows "qty = min (remainingQuantity (deref b bid)) (remainingQuantity (deref b ask))"
    and "bids b2 = bids b" and "asks b2 = asks b" and "orders b2 = orders b"
    and "orderPool b2 = orderPool b" and "data b2 = data b"
    and "IsFilled (deref b2 bid) \<or> IsFilled (deref b2 ask)"
proof -
  let ?rb = "remainingQuantity (deref b bid)"
  let ?ra = "remainingQuantity (deref b ask)"
  let ?q = "min ?rb ?ra"
  from assms obtain bo where f1: "Fill (deref b bid) ?q = Inr bo"
    by (cases "Fill (deref b bid) ?q") (simp_all add: fill_heads_def Let_def)
  from assms f1 obtain ao where f2: "Fill (deref (store bid bo b) ask) ?q = Inr ao"
    by (cases "Fill (deref (store bid bo b) ask) ?q") (simp_all add: fill_heads_def Let_def)
  from assms f1 f2 have q: "qty = ?q" and b2: "b2 = store ask ao (store bid bo b)"
    by (simp_all add: fill_heads_def Let_def)
  show "qty = ?q" by (rule q)
  show "bids b2 = bids b" "asks b2 = asks b" "orders b2 = orders b"
    "orderPool b2 = orderPool b" "data b2 = data b"
    by (simp_all add: b2)
  have bo: "bo = (deref b bid)\<lparr>remainingQuantity := ?rb - ?q\<rparr>"
    using Fill_Inr(2) [OF f1] .
  show "IsFilled (deref b2 bid) \<or> IsFilled (deref b2 ask)"
  proof (cases "bid = ask")
    case True
    then have q': "?q = ?rb" by simp
    have "?q \<le> remainingQuantity (deref (store bid bo b) ask)"
      using Fill_Inr(1) [OF f2] .
    then have "?rb \<le> 0" using True bo by simp
    then have "?rb = 0" by simp
    moreover have "ao = (deref (store bid bo b) ask)\<lparr>remainingQuantity := remainingQuantity (deref (store bid bo b) ask) - ?q\<rparr>"
      using Fill_Inr(2) [OF f2] .
    ultimately show ?thesis using True bo by (simp add: b2 IsFilled_def)
  next
    case False
    have ao: "ao = (deref b ask)\<lparr>remainingQuantity := ?ra - ?q\<rparr>"
      using Fill_Inr(2) [OF f2] False by simp
    have "?q = ?rb \<or> ?q = ?ra" by (simp add: min_def)
    then show ?thesis
    proof
      assume "?q = ?rb"
      then have "remainingQuantity bo = 0" using bo by simp
      then show ?thesis using False by (simp add: b2 IsFilled_def)
    next
      assume "?q = ?ra"
      then have "remainingQuantity ao = 0" using ao by simp
      then show ?thesis by (simp add: b2 IsFilled_def)
    qed
  qed
qed

lemma MatchOrders_cross_Inr:
  fixes b :: "('w::len) word Book"
  assumes "MatchOrders_cross b = Inr (t, b')"
  obtains bidPrice bid bl' brest askPrice ask al' arest qty b2 b3 b4 where
    "bids b = (bidPrice, bid # bl') # brest"
    "asks b = (askPrice, ask # al') # arest"
    "fill_heads bid ask b = Inr (qty, b2)"
    "b3 = (if IsFilled (deref b2 bid)
           then b2\<lparr>bids := (bidPrice, bl') # brest,
                   orders := map_erase (orderId (deref b2 bid)) (orders b2),
                   orderPool := Release (orderPool b2) bid\<rparr>
           else b2)"
    "b4 = (if IsFilled (deref b2 ask)
           then b3\<lparr>asks := (askPrice, al') # arest,
                   orders := map_erase (orderId (deref b2 ask)) (orders b3),
                   orderPool := Release (orderPool b3) ask\<rparr>
           else b3)"
    "t = Trade (TradeInfo (orderId (deref b2 bid)) (price (deref b2 bid)) qty)
               (TradeInfo (orderId (deref b2 ask)) (price (deref b2 ask)) qty)"
    "b' = OnOrderMatched (price (deref b2 ask)) qty (IsFilled (deref b2 ask))
            (OnOrderMatched (price (deref b2 bid)) qty (IsFilled (deref b2 bid)) b4)"
proof -
  from assms obtain bidPrice bl brest where bb0: "bids b = (bidPrice, bl) # brest"
    by (cases "bids b") (auto simp: MatchOrders_cross_def)
  from assms bb0 obtain askPrice al arest where aa0: "asks b = (askPrice, al) # arest"
    by (cases "asks b") (auto simp: MatchOrders_cross_def)
  from assms bb0 aa0 obtain bid bl' where bl: "bl = bid # bl'"
    by (cases bl) (auto simp: MatchOrders_cross_def)
  from assms bb0 aa0 bl obtain ask al' where al: "al = ask # al'"
    by (cases al) (auto simp: MatchOrders_cross_def)
  from assms bb0 aa0 bl al obtain qty b2 where fh: "fill_heads bid ask b = Inr (qty, b2)"
    by (cases "fill_heads bid ask b") (auto simp: MatchOrders_cross_def)
  define b3 where "b3 = (if IsFilled (deref b2 bid)
           then b2\<lparr>bids := (bidPrice, bl') # brest,
                   orders := map_erase (orderId (deref b2 bid)) (orders b2),
                   orderPool := Release (orderPool b2) bid\<rparr>
           else b2)"
  define b4 where "b4 = (if IsFilled (deref b2 ask)
           then b3\<lparr>asks := (askPrice, al') # arest,
                   orders := map_erase (orderId (deref b2 ask)) (orders b3),
                   orderPool := Release (orderPool b3) ask\<rparr>
           else b3)"
  have d3: "deref b3 x = deref b2 x" for x by (simp add: b3_def)
  have d4: "deref b4 x = deref b2 x" for x by (simp add: b4_def d3)
  have "MatchOrders_cross b =
      Inr (Trade (TradeInfo (orderId (deref b2 bid)) (price (deref b2 bid)) qty)
               (TradeInfo (orderId (deref b2 ask)) (price (deref b2 ask)) qty),
           OnOrderMatched (price (deref b2 ask)) qty (IsFilled (deref b2 ask))
            (OnOrderMatched (price (deref b2 bid)) qty (IsFilled (deref b2 bid)) b4))"
    unfolding MatchOrders_cross_def bb0 aa0 bl al
    by (cases "IsFilled (deref b2 bid)"; cases "IsFilled (deref b2 ask)";
        simp add: fh Let_def b3_def b4_def)
  with assms have
    "t = Trade (TradeInfo (orderId (deref b2 bid)) (price (deref b2 bid)) qty)
               (TradeInfo (orderId (deref b2 ask)) (price (deref b2 ask)) qty)"
    "b' = OnOrderMatched (price (deref b2 ask)) qty (IsFilled (deref b2 ask))
            (OnOrderMatched (price (deref b2 bid)) qty (IsFilled (deref b2 bid)) b4)"
    by simp_all
  with that [OF _ _ fh b3_def b4_def] bb0 aa0 bl al show thesis by simp
qed

lemma MatchOrders_cross_decreases:
  fixes b :: "('w::len) word Book"
  assumes "MatchOrders_cross b = Inr (t, b')"
  shows "heads_size b' < heads_size b"
proof -
  from assms obtain bidPrice bid bl' brest askPrice ask al' arest qty b2 b3 b4 where
    bb: "bids b = (bidPrice, bid # bl') # brest" and
    aa: "asks b = (askPrice, ask # al') # arest" and
    fh: "fill_heads bid ask b = Inr (qty, b2)" and
    b3: "b3 = (if IsFilled (deref b2 bid)
           then b2\<lparr>bids := (bidPrice, bl') # brest,
                   orders := map_erase (orderId (deref b2 bid)) (orders b2),
                   orderPool := Release (orderPool b2) bid\<rparr>
           else b2)" and
    b4: "b4 = (if IsFilled (deref b2 ask)
           then b3\<lparr>asks := (askPrice, al') # arest,
                   orders := map_erase (orderId (deref b2 ask)) (orders b3),
                   orderPool := Release (orderPool b3) ask\<rparr>
           else b3)" and
    b': "b' = OnOrderMatched (price (deref b2 ask)) qty (IsFilled (deref b2 ask))
            (OnOrderMatched (price (deref b2 bid)) qty (IsFilled (deref b2 bid)) b4)"
    by (rule MatchOrders_cross_Inr)
  note f = fill_heads_Inr [OF fh]
  have bids': "bids b' = (if IsFilled (deref b2 bid) then (bidPrice, bl') # brest else bids b)"
    by (simp add: b' b4 b3 f(2))
  have asks': "asks b' = (if IsFilled (deref b2 ask) then (askPrice, al') # arest else asks b)"
    by (simp add: b' b4 b3 f(3))
  from f(7) show ?thesis
    by (auto simp: heads_size_def bids' asks' bb aa)
qed

text \<open>
  The inner \<^verbatim>\<open>while (!bids.empty() && !asks.empty())\<close>. It ends because every pass
  pops a head.
\<close>

function MatchOrders_level ::
  "('w::len) word Book \<Rightarrow> 'w word Trade list \<Rightarrow> error + ('w word Trade list \<times> 'w word Book)" where
  "MatchOrders_level b trades =
     (if heads_present b
      then (case MatchOrders_cross b of
              Inl e \<Rightarrow> Inl e
            | Inr (t, b') \<Rightarrow> MatchOrders_level b' (trades @ [t]))
      else Inr (trades, b))"
  by pat_completeness auto
termination
  by (relation "measure (\<lambda>(b, trades). heads_size b)")
     (auto dest: MatchOrders_cross_decreases)

text \<open>
  The outer \<^verbatim>\<open>while (true)\<close>. The source leaves it when a map is empty or the first bid
  price is below the first ask price. The blocks that would erase an emptied level are
  commented out, so nothing bounds the number of passes: the loop is a partial function,
  \<open>None\<close> when it never returns.
\<close>

partial_function (option) MatchOrders_loop ::
  "('w::len) word Book \<Rightarrow> 'w word Trade list
     \<Rightarrow> (error + ('w word Trade list \<times> 'w word Book)) option" where
  "MatchOrders_loop b trades =
     (if bids b = [] \<or> asks b = [] then Some (Inr (trades, b))
      else if fst (hd (bids b)) < fst (hd (asks b)) then Some (Inr (trades, b))
      else (case MatchOrders_level b trades of
              Inl e \<Rightarrow> Some (Inl e)
            | Inr (trades', b') \<Rightarrow> MatchOrders_loop b' trades'))"

declare MatchOrders_loop.simps [code]

text \<open>
  After the loop: the first order of the first level of a side is cancelled when it is
  FillAndKill. \<^verbatim>\<open>front()\<close> of an empty list is undefined.
\<close>

definition cancel_front_FillAndKill ::
  "(Price \<times> OrderPointer list) list \<Rightarrow> ('w::len) word Book \<Rightarrow> error + 'w word Book" where
  "cancel_front_FillAndKill levels b =
     (case levels of
        [] \<Rightarrow> Inr b
      | (p, lst) # rest \<Rightarrow>
          (case lst of
             [] \<Rightarrow> Inl UndefinedBehaviour
           | ord # others \<Rightarrow>
               if orderType (deref b ord) = FillAndKill
               then CancelOrderInternal (orderId (deref b ord)) b
               else Inr b))"

definition MatchOrders ::
  "('w::len) word Book \<Rightarrow> (error + ('w word Trade list \<times> 'w word Book)) option" where
  "MatchOrders b =
     (case MatchOrders_loop b [] of
        None \<Rightarrow> None
      | Some (Inl e) \<Rightarrow> Some (Inl e)
      | Some (Inr (trades, b1)) \<Rightarrow>
          (case cancel_front_FillAndKill (bids b1) b1 of
             Inl e \<Rightarrow> Some (Inl e)
           | Inr b2 \<Rightarrow>
               (case cancel_front_FillAndKill (asks b2) b2 of
                  Inl e \<Rightarrow> Some (Inl e)
                | Inr b3 \<Rightarrow> Some (Inr (trades, b3)))))"

subsection \<open>Add, cancel, modify\<close>

text \<open>
  A Market order takes the price of the last level of the opposite map and becomes
  GoodTillCancel; with no opposite level it is dropped (\<open>None\<close>).
\<close>

definition bind_Market :: "OrderPointer \<Rightarrow> ('w::len) word Book \<Rightarrow> error + 'w word Book option" where
  "bind_Market ord b =
     (if orderType (deref b ord) = Market
      then (if side (deref b ord) = Buy \<and> asks b \<noteq> []
            then (case ToGoodTillCancel (deref b ord) (fst (last (asks b))) of
                    Inl e \<Rightarrow> Inl e
                  | Inr obj \<Rightarrow> Inr (Some (store ord obj b)))
            else if side (deref b ord) = Sell \<and> bids b \<noteq> []
            then (case ToGoodTillCancel (deref b ord) (fst (last (bids b))) of
                    Inl e \<Rightarrow> Inl e
                  | Inr obj \<Rightarrow> Inr (Some (store ord obj b)))
            else Inr None)
      else Inr (Some b))"

text \<open>The order goes to the tail of its price level, which is created when missing.\<close>

definition place :: "OrderPointer \<Rightarrow> ('w::len) word Book \<Rightarrow> 'w word Book" where
  "place ord b =
     (let p = price (deref b ord);
          b1 = (if side (deref b ord) = Buy
                then (let (lst, m) = map_subscript (\<lambda>x y. x > y) [] (bids b) p
                      in b\<lparr>bids := map_assign p (lst @ [ord]) m\<rparr>)
                else (let (lst, m) = map_subscript (\<lambda>x y. x < y) [] (asks b) p
                      in b\<lparr>asks := map_assign p (lst @ [ord]) m\<rparr>))
      in b1\<lparr>orders := map_insert unordered (orderId (deref b1 ord)) ord (orders b1)\<rparr>)"

definition HandleAddOrder ::
  "OrderPointer \<Rightarrow> ('w::len) word Book \<Rightarrow> (error + ('w word Trade list \<times> 'w word Book)) option" where
  "HandleAddOrder ord b =
     (if map_contains (orders b) (orderId (deref b ord)) then Some (Inr ([], b))
      else case bind_Market ord b of
        Inl e \<Rightarrow> Some (Inl e)
      | Inr None \<Rightarrow> Some (Inr ([], b))
      | Inr (Some b1) \<Rightarrow>
          if orderType (deref b1 ord) = FillAndKill
             \<and> \<not> CanMatch (side (deref b1 ord)) (price (deref b1 ord)) b1
          then Some (Inr ([], b1))
          else case (if orderType (deref b1 ord) = FillOrKill
                     then CanFullyFill (side (deref b1 ord)) (price (deref b1 ord))
                            (initialQuantity (deref b1 ord)) b1
                     else Inr True) of
            Inl e \<Rightarrow> Some (Inl e)
          | Inr False \<Rightarrow> Some (Inr ([], b1))
          | Inr True \<Rightarrow> MatchOrders (OnOrderAdded ord (place ord b1)))"

definition HandleCancelOrder :: "OrderId \<Rightarrow> ('w::len) word Book \<Rightarrow> error + 'w word Book" where
  "HandleCancelOrder oid b = CancelOrderInternal oid b"

definition AcquireOrder ::
  "OrderType \<Rightarrow> OrderId \<Rightarrow> Side \<Rightarrow> Price \<Rightarrow> ('w::len) word \<Rightarrow> 'w word Book
     \<Rightarrow> OrderPointer \<times> 'w word Book" where
  "AcquireOrder t oid sd p qty b =
     (let (obj, pl, mem) = Acquire (orderPool b) (memory b)
      in (obj, store obj (Reset t oid sd p qty) (b\<lparr>orderPool := pl, memory := mem\<rparr>)))"

fun HandleModifyOrder ::
  "('w::len) word OrderModify \<Rightarrow> 'w word Book
     \<Rightarrow> (error + ('w word Trade list \<times> 'w word Book)) option" where
  "HandleModifyOrder (OrderModify oid sd p qty) b =
     (case map_of (orders b) oid of
        None \<Rightarrow> Some (Inr ([], b))
      | Some existingOrder \<Rightarrow>
          (let t = orderType (deref b existingOrder)
           in case CancelOrderInternal oid b of
                Inl e \<Rightarrow> Some (Inl e)
              | Inr b1 \<Rightarrow>
                  (let (newOrder, b2) = AcquireOrder t oid sd p qty b1
                   in HandleAddOrder newOrder b2)))"

section \<open>The event loop (Orderbook::ProcessRequests)\<close>

text \<open>
  The engine: the book, the inbound ring, the shutdown flag, the risk configuration and
  the counter of processed requests. \<open>journal\<close> is the sequence of requests handed to
  the journaler; the member \<^verbatim>\<open>journaler_\<close> and the call \<^verbatim>\<open>journaler_.Log(req)\<close> are
  commented out in the source, so no step of the model writes it. The latency samples
  depend on the clock and are left out.
\<close>

record 'q Orderbook =
  book :: "'q Book"
  requestQueue :: "'q Request LockFreeQueue"
  shutdown :: bool
  riskManager :: "'q Config"
  ordersProcessed :: nat
  journal :: "'q Request list"

text \<open>The \<^verbatim>\<open>switch\<close> on the request type; the trades a handler returns are dropped.\<close>

definition dispatch ::
  "('w::len) word Request \<Rightarrow> 'w word Book \<Rightarrow> (error + 'w word Book) option" where
  "dispatch req b =
     (case req_type req of
        Type_Add \<Rightarrow> map_option (map_sum id snd) (HandleAddOrder (req_order req) b)
      | Type_Cancel \<Rightarrow> Some (HandleCancelOrder (req_orderId req) b)
      | Type_Modify \<Rightarrow> map_option (map_sum id snd) (HandleModifyOrder (req_modify req) b))"

text \<open>What the loop does with a request it has popped.\<close>

definition process_request ::
  "('w::len) word Request \<Rightarrow> 'w word Orderbook \<Rightarrow> (error + 'w word Orderbook) option" where
  "process_request req e =
     (if req_type req = Type_Add
         \<and> CheckOrder (riskManager e) (deref (book e) (req_order req)) \<noteq> Allowed
      then Some (Inr (e\<lparr>book := (book e)\<lparr>orderPool := Release (orderPool (book e)) (req_order req)\<rparr>,
                        ordersProcessed := ordersProcessed e + 1\<rparr>))
      else case dispatch req (book e) of
             None \<Rightarrow> None
           | Some (Inl er) \<Rightarrow> Some (Inl er)
           | Some (Inr b') \<Rightarrow> Some (Inr (e\<lparr>book := b', ordersProcessed := ordersProcessed e + 1\<rparr>)))"

text \<open>
  The loop itself, run by the matcher thread alone (no producer pushes meanwhile). An
  empty poll yields and polls again; without the shutdown flag that never ends. An
  exception leaving a handler ends the thread.
\<close>

partial_function (option) ProcessRequests ::
  "('w::len) word Orderbook \<Rightarrow> (error + 'w word Orderbook) option" where
  "ProcessRequests e =
     (if \<not> shutdown e \<or> \<not> IsEmpty (requestQueue e)
      then (case Pop (requestQueue e) of
              Inl er \<Rightarrow> Some (Inl er)
            | Inr (None, q') \<Rightarrow> ProcessRequests e
            | Inr (Some req, q') \<Rightarrow>
                (case process_request req (e\<lparr>requestQueue := q'\<rparr>) of
                   None \<Rightarrow> None
                 | Some (Inl er) \<Rightarrow> Some (Inl er)
                 | Some (Inr e') \<Rightarrow> ProcessRequests e'))
      else Some (Inr e))"

declare ProcessRequests.simps [code]

text \<open>The queued requests handled one after the other, in the order given.\<close>

fun process_all ::
  "('w::len) word Request list \<Rightarrow> 'w word Orderbook \<Rightarrow> (error + 'w word Orderbook) option" where
  "process_all [] e = Some (Inr e)"
| "process_all (req # reqs) e =
     (case process_request req e of
        None \<Rightarrow> None
      | Some (Inl er) \<Rightarrow> Some (Inl er)
      | Some (Inr e') \<Rightarrow> process_all reqs e')"

section \<open>Initial states\<close>

text \<open>
  The constructor builds a pool of 100000 orders and a ring of 65536 requests; the sizes
  are parameters here, so that small instances can be evaluated.
\<close>

definition empty_Memory :: "('w::len) word Memory" where
  "empty_Memory = \<lparr>objects = (\<lambda>p. zero_Order), next_free = 0\<rparr>"

definition new_Book :: "nat \<Rightarrow> ('w::len) word Book" where
  "new_Book poolSize =
     (let (pl, mem) = new_ObjectPool poolSize empty_Memory
      in \<lparr>data = [], bids = [], asks = [], orders = [], orderPool = pl, memory = mem\<rparr>)"

definition empty_Request :: "('w::len) word Request" where
  "empty_Request = \<lparr>req_type = Type_Add, req_order = 0, req_orderId = 0,
                     req_modify = OrderModify 0 Buy 0 0, req_timestamp = 0\<rparr>"

definition new_Orderbook :: "nat \<Rightarrow> nat \<Rightarrow> ('w::len) word Orderbook" where
  "new_Orderbook queueSize poolSize =
     \<lparr>book = new_Book poolSize, requestQueue = new_LockFreeQueue queueSize empty_Request,
      shutdown = False, riskManager = default_Config, ordersProcessed = 0, journal = []\<rparr>"

text \<open>
  An order drawn from the pool, filled in and added: what the load generator of
  \<^verbatim>\<open>main\<close> does with \<^verbatim>\<open>AcquireOrder\<close> and \<^verbatim>\<open>AddOrder\<close>, followed by the handler the
  matcher runs for the request.
\<close>

definition add_new ::
  "OrderType \<Rightarrow> OrderId \<Rightarrow> Side \<Rightarrow> Price \<Rightarrow> ('w::len) word \<Rightarrow> 'w word Book
     \<Rightarrow> (error + ('w word Trade list \<times> 'w word Book)) option" where
  "add_new t oid sd p qty b =
     (let (ord, b1) = AcquireOrder t oid sd p qty b in HandleAddOrder ord b1)"

text \<open>
  A book whose first levels cross in price while one of them holds no order: the outer
  loop of \<^verbatim>\<open>MatchOrders\<close> passes both of its exits, and the inner loop has nothing to do.
\<close>

definition crossed_without_heads :: "'q Book \<Rightarrow> bool" where
  "crossed_without_heads b \<longleftrightarrow>
     bids b \<noteq> [] \<and> asks b \<noteq> [] \<and> \<not> fst (hd (bids b)) < fst (hd (asks b))
     \<and> \<not> heads_present b"

section \<open>Concrete states\<close>

text \<open>
  A book in which a Buy of 10 (id 1, object 1) and a Sell of 3 (id 2, object 0) rest at
  the same price 100, as it stands when the match loop starts after the second add.
\<close>

definition crossing_book :: "32 word Book" where
  "crossing_book =
     \<lparr>data = [(100, \<lparr>quantity = 13, count = 2\<rparr>)],
      bids = [(100, [1])], asks = [(100, [0])],
      orders = [(1, 1), (2, 0)],
      orderPool = \<lparr>pool = []\<rparr>,
      memory = \<lparr>objects = (\<lambda>p. if p = 1 then Reset GoodTillCancel 1 Buy 100 10
                                  else Reset GoodTillCancel 2 Sell 100 3),
                next_free = 2\<rparr>\<rparr>"

text \<open>
  An engine whose shutdown flag is set while two Add requests wait in a ring of capacity
  4: a Buy of 10 at 100 (id 1, object 1) and a Sell of 5 at 101 (id 2, object 0).
\<close>

definition draining_engine :: "32 word Orderbook" where
  "draining_engine =
     \<lparr>book = \<lparr>data = [], bids = [], asks = [], orders = [],
              orderPool = \<lparr>pool = []\<rparr>,
              memory = \<lparr>objects = (\<lambda>p. if p = 1 then Reset GoodTillCancel 1 Buy 100 10
                                          else Reset GoodTillCancel 2 Sell 101 5),
                        next_free = 2\<rparr>\<rparr>,
      requestQueue =
        \<lparr>buffer = [empty_Request\<lparr>req_type := Type_Add, req_order := 1\<rparr>,
                   empty_Request\<lparr>req_type := Type_Add, req_order := 0\<rparr>,
                   empty_Request, empty_Request],
         capacity = 4, head = 0, tail = 2\<rparr>,
      shutdown = True, riskManager = default_Config, ordersProcessed = 0, journal = []\<rparr>"
section \<open>Properties of the risk gate\<close>

text \<open>
  C8. The risk gate returns \<open>RejectedMaxQty\<close> exactly when the order's initial quantity
  exceeds the configured maximum. It returns \<open>RejectedPriceRange\<close> exactly when the
  quantity is within the maximum, the order is not a Market order and its price lies
  above the maximum or below the minimum price; so a Market order is never rejected for
  its price. It returns \<open>Allowed\<close> in all remaining cases: the quantity is within the
  maximum and the order is a Market order or its price lies within the two bounds.
\<close>

theorem CheckOrder_results:
  fixes config :: "('w::len) word Config" and ord :: "'w word Order"
  shows "(CheckOrder config ord = RejectedMaxQty
            \<longleftrightarrow> initialQuantity ord > maxOrderQuantity config)
       \<and> (CheckOrder config ord = RejectedPriceRange
            \<longleftrightarrow> initialQuantity ord \<le> maxOrderQuantity config \<and> orderType ord \<noteq> Market
                \<and> (price ord > maxPrice config \<or> price ord < minPrice config))
       \<and> (CheckOrder config ord = Allowed
            \<longleftrightarrow> initialQuantity ord \<le> maxOrderQuantity config
                \<and> (orderType ord = Market
                     \<or> (minPrice config \<le> price ord \<and> price ord \<le> maxPrice config)))"
  by (simp add: CheckOrder_def not_less not_le) (metis not_less)
section \<open>Properties of the ring buffer\<close>

lemma queue_inv_new: "0 < C \<Longrightarrow> queue_inv C (new_LockFreeQueue C d)"
  by (simp add: queue_inv_def new_LockFreeQueue_def)

lemma Push_inv: "queue_inv C q \<Longrightarrow> Push q x = Inr (b, q') \<Longrightarrow> queue_inv C q'"
  by (auto simp: queue_inv_def Push_def Let_def split: if_splits)

lemma Pop_inv: "queue_inv C q \<Longrightarrow> Pop q = Inr (r, q') \<Longrightarrow> queue_inv C q'"
  by (auto simp: queue_inv_def Pop_def Let_def split: if_splits)

lemma run_ops_inv: "queue_inv C q0 \<Longrightarrow> run_ops ops q0 = Inr q \<Longrightarrow> queue_inv C q"
proof (induction ops arbitrary: q0)
  case Nil
  then show ?case by simp
next
  case (Cons a ops)
  show ?case
  proof (cases a)
    case (Op_Push x)
    with Cons.prems(2) obtain b q1 where
      "Push q0 x = Inr (b, q1)" "run_ops ops q1 = Inr q"
      by (auto split: sum.splits)
    with Cons.IH Push_inv [OF Cons.prems(1)] show ?thesis by blast
  next
    case Op_Pop
    with Cons.prems(2) obtain r q1 where
      "Pop q0 = Inr (r, q1)" "run_ops ops q1 = Inr q"
      by (auto split: sum.splits)
    with Cons.IH Pop_inv [OF Cons.prems(1)] show ?thesis by blast
  qed
qed

lemma Size_le: "queue_inv C q \<Longrightarrow> Size q \<le> C - 1"
  by (auto simp: queue_inv_def Size_def)

lemma Size_lt: "queue_inv C q \<Longrightarrow> Size q < C"
  by (auto simp: queue_inv_def Size_def)

lemma next_eq_iff:
  fixes h t C :: nat
  assumes "h < C" "t < C"
  shows "(t + 1) mod C = h \<longleftrightarrow> (if h \<le> t then t - h else C - (h - t)) = C - 1"
proof (cases "t + 1 = C")
  case True
  then have "(t + 1) mod C = 0" by simp
  moreover have "t = C - 1" using True by simp
  ultimately show ?thesis using assms by auto
next
  case False
  then have lt: "t + 1 < C" using assms by simp
  then have "(t + 1) mod C = t + 1" by simp
  then show ?thesis using assms lt by auto
qed

lemma Push_result:
  assumes "queue_inv C q"
  shows "Push q x = Inr (Size q < C - 1, if Size q < C - 1 then q\<lparr>buffer := (buffer q)[tail q := x], tail := (tail q + 1) mod C\<rparr> else q)"
proof -
  have C: "0 < C" "capacity q = C" "length (buffer q) = C" "head q < C" "tail q < C"
    using assms by (auto simp: queue_inv_def)
  have "(tail q + 1) mod C = head q \<longleftrightarrow> Size q = C - 1"
    using next_eq_iff [OF C(4) C(5)] by (simp add: Size_def C)
  moreover have "Size q \<le> C - 1" using assms by (rule Size_le)
  ultimately show ?thesis
    using C by (auto simp: Push_def Let_def)
qed

lemma Size_Push:
  assumes "queue_inv C q" "Size q < C - 1"
  shows "Size (q\<lparr>buffer := bs, tail := (tail q + 1) mod C\<rparr>) = Size q + 1"
proof -
  have C: "0 < C" "capacity q = C" "head q < C" "tail q < C"
    using assms by (auto simp: queue_inv_def)
  show ?thesis
  proof (cases "tail q + 1 = C")
    case True
    then show ?thesis using C assms(2) by (auto simp: Size_def split: if_splits)
  next
    case False
    then have "tail q + 1 < C" using C by simp
    then show ?thesis using C assms(2) by (auto simp: Size_def split: if_splits)
  qed
qed

lemma Pop_result:
  assumes "queue_inv C q"
  shows "Pop q = Inr (if Size q = 0 then None else Some (buffer q ! head q),
                     if Size q = 0 then q else q\<lparr>head := (head q + 1) mod C\<rparr>)"
proof -
  have C: "0 < C" "capacity q = C" "length (buffer q) = C" "head q < C" "tail q < C"
    using assms by (auto simp: queue_inv_def)
  have "head q = tail q \<longleftrightarrow> Size q = 0" using C by (auto simp: Size_def)
  then show ?thesis using C by (auto simp: Pop_def Let_def)
qed

lemma Size_Pop:
  assumes "queue_inv C q" "Size q \<noteq> 0"
  shows "Size (q\<lparr>head := (head q + 1) mod C\<rparr>) = Size q - 1"
proof -
  have C: "0 < C" "capacity q = C" "head q < C" "tail q < C"
    using assms by (auto simp: queue_inv_def)
  show ?thesis
  proof (cases "head q + 1 = C")
    case True
    then show ?thesis using C assms(2) by (auto simp: Size_def split: if_splits)
  next
    case False
    then have "head q + 1 < C" using C by simp
    then show ?thesis using C assms(2) by (auto simp: Size_def split: if_splits)
  qed
qed


lemma push_all_count:
  "queue_inv C q \<Longrightarrow> push_all q xs = Inr (bs, q') \<Longrightarrow>
     queue_inv C q' \<and> Size q' = Size q + length (filter id bs) \<and> length bs = length xs"
proof (induction xs arbitrary: q bs)
  case Nil
  then show ?case by simp
next
  case (Cons x xs)
  let ?b = "Size q < C - 1"
  let ?q1 = "if ?b then q\<lparr>buffer := (buffer q)[tail q := x], tail := (tail q + 1) mod C\<rparr> else q"
  have P: "Push q x = Inr (?b, ?q1)" using Cons.prems(1) by (rule Push_result)
  have inv1: "queue_inv C ?q1" using Cons.prems(1) P by (rule Push_inv)
  have sz1: "Size ?q1 = Size q + (if ?b then 1 else 0)"
    using Size_Push [OF Cons.prems(1)] by simp
  from Cons.prems(2) P obtain bs' where
    rest: "push_all ?q1 xs = Inr (bs', q')" and bs: "bs = ?b # bs'"
    by (auto split: sum.splits)
  from Cons.IH [OF inv1 rest] sz1 bs show ?case by auto
qed

lemma push_all_fresh:
  "queue_inv C q \<Longrightarrow> Size q + length xs \<le> C - 1 \<Longrightarrow>
     \<exists>q'. push_all q xs = Inr (replicate (length xs) True, q')"
proof (induction xs arbitrary: q)
  case Nil
  then show ?case by simp
next
  case (Cons x xs)
  let ?q1 = "q\<lparr>buffer := (buffer q)[tail q := x], tail := (tail q + 1) mod C\<rparr>"
  have lt: "Size q < C - 1" using Cons.prems(2) by simp
  have P: "Push q x = Inr (True, ?q1)" using Push_result [OF Cons.prems(1), of x] lt by simp
  have inv1: "queue_inv C ?q1" using Cons.prems(1) P by (rule Push_inv)
  have "Size ?q1 = Size q + 1" using Cons.prems(1) lt by (rule Size_Push)
  then have "Size ?q1 + length xs \<le> C - 1" using Cons.prems(2) by simp
  from Cons.IH [OF inv1 this] obtain q' where "push_all ?q1 xs = Inr (replicate (length xs) True, q')" ..
  then show ?case using P by simp
qed

lemma Size_new: "Size (new_LockFreeQueue C d) = 0"
  by (simp add: Size_def new_LockFreeQueue_def)

text \<open>
  C9. A ring buffer built with capacity \<open>C\<close> (at least 1) holds at most \<open>C - 1\<close>
  elements after any sequence of pushes and pops. A push succeeds exactly when fewer than \<open>C - 1\<close>
  elements are held, and then one more is held; so after \<open>C - 1\<close> consecutive successful
  pushes the next push returns false, and on a fresh queue \<open>C - 1\<close> pushes do all succeed.
  A pop returns an element exactly when the queue is not empty.
\<close>

theorem LockFreeQueue_capacity:
  assumes C: "0 < C" and r: "run_ops ops (new_LockFreeQueue C d) = Inr q"
  shows "Size q \<le> C - 1
     \<and> (\<exists>b q'. Push q x = Inr (b, q') \<and> (b \<longleftrightarrow> Size q < C - 1)
            \<and> Size q' = (if b then Size q + 1 else Size q))
     \<and> (\<exists>r q'. Pop q = Inr (r, q') \<and> (r \<noteq> None \<longleftrightarrow> \<not> IsEmpty q)
            \<and> (IsEmpty q \<longleftrightarrow> Size q = 0)
            \<and> Size q' = (if r = None then Size q else Size q - 1))
     \<and> (\<forall>xs bs q'. push_all q xs = Inr (bs, q') \<and> length xs = C - 1 \<and> (\<forall>b \<in> set bs. b)
            \<longrightarrow> Push q' x = Inr (False, q'))
     \<and> (\<forall>xs. length xs = C - 1 \<longrightarrow>
            (\<exists>q'. push_all (new_LockFreeQueue C d) xs = Inr (replicate (C - 1) True, q')))"
proof -
  have inv: "queue_inv C q" using queue_inv_new [OF C] r by (rule run_ops_inv)
  have c1: "Size q \<le> C - 1" using inv by (rule Size_le)
  have c2: "\<exists>b q'. Push q x = Inr (b, q') \<and> (b \<longleftrightarrow> Size q < C - 1)
            \<and> Size q' = (if b then Size q + 1 else Size q)"
    using Push_result [OF inv, of x] Size_Push [OF inv] by auto
  have e: "IsEmpty q \<longleftrightarrow> Size q = 0"
    using inv by (auto simp: IsEmpty_def Size_def queue_inv_def)
  have c3: "\<exists>r q'. Pop q = Inr (r, q') \<and> (r \<noteq> None \<longleftrightarrow> \<not> IsEmpty q)
            \<and> (IsEmpty q \<longleftrightarrow> Size q = 0)
            \<and> Size q' = (if r = None then Size q else Size q - 1)"
    using Pop_result [OF inv] Size_Pop [OF inv] e by auto
  have c4: "\<forall>xs bs q'. push_all q xs = Inr (bs, q') \<and> length xs = C - 1 \<and> (\<forall>b \<in> set bs. b)
            \<longrightarrow> Push q' x = Inr (False, q')"
  proof (intro allI impI, elim conjE)
    fix xs bs q'
    assume p: "push_all q xs = Inr (bs, q')" and l: "length xs = C - 1" and a: "\<forall>b \<in> set bs. b"
    from push_all_count [OF inv p]
    have inv': "queue_inv C q'" and sz: "Size q' = Size q + length (filter id bs)"
      and len: "length bs = length xs" by simp_all
    have "filter id bs = bs" using a by (simp add: filter_id_conv)
    then have "Size q' \<ge> C - 1" using sz len l by simp
    then have "\<not> Size q' < C - 1" by simp
    then show "Push q' x = Inr (False, q')" using Push_result [OF inv', of x] by simp
  qed
  have c5: "\<forall>xs. length xs = C - 1 \<longrightarrow>
            (\<exists>q'. push_all (new_LockFreeQueue C d) xs = Inr (replicate (C - 1) True, q'))"
  proof (intro allI impI)
    fix xs :: "'a list"
    assume l: "length xs = C - 1"
    have "Size (new_LockFreeQueue C d) + length xs \<le> C - 1" using l by (simp add: Size_new)
    from push_all_fresh [OF queue_inv_new [OF C] this] l
    show "\<exists>q'. push_all (new_LockFreeQueue C d) xs = Inr (replicate (C - 1) True, q')" by simp
  qed
  from c1 c2 c3 c4 c5 show ?thesis by blast
qed


text \<open>
  The capacity theorem at capacity 3, after one push and one pop: two pushes succeed
  (the second wraps around the buffer), the third is refused.
\<close>

theorem LockFreeQueue_capacity_witness:
  "run_ops [Op_Push 5, Op_Pop] (new_LockFreeQueue 3 (0::nat))
       = Inr \<lparr>buffer = [5, 0, 0], capacity = 3, head = 1, tail = 1\<rparr>
   \<and> push_all \<lparr>buffer = [5, 0, 0::nat], capacity = 3, head = 1, tail = 1\<rparr> [7, 8]
       = Inr ([True, True], \<lparr>buffer = [5, 7, 8], capacity = 3, head = 1, tail = 0\<rparr>)
   \<and> Push \<lparr>buffer = [5, 7, 8::nat], capacity = 3, head = 1, tail = 0\<rparr> 9
       = Inr (False, \<lparr>buffer = [5, 7, 8], capacity = 3, head = 1, tail = 0\<rparr>)
   \<and> Size \<lparr>buffer = [5, 0, 0::nat], capacity = 3, head = 1, tail = 1\<rparr> \<le> 3 - 1"
proof -
  let ?q0 = "\<lparr>buffer = [5, 0, 0::nat], capacity = 3, head = 1, tail = 1\<rparr>"
  let ?q2 = "\<lparr>buffer = [5, 7, 8::nat], capacity = 3, head = 1, tail = 0\<rparr>"
  have n: "new_LockFreeQueue 3 (0::nat) = \<lparr>buffer = [0, 0, 0], capacity = 3, head = 0, tail = 0\<rparr>"
    by (simp add: new_LockFreeQueue_def eval_nat_numeral)
  have r: "run_ops [Op_Push 5, Op_Pop] (new_LockFreeQueue 3 (0::nat)) = Inr ?q0"
    unfolding n by (simp add: Push_def Pop_def)
  have p: "push_all ?q0 [7, 8] = Inr ([True, True], ?q2)"
    by (simp add: Push_def)
  have pos: "(0::nat) < 3" by simp
  note main = LockFreeQueue_capacity [OF pos r, of 9]
  have c1: "Size ?q0 \<le> 3 - 1" using main by (rule conjunct1)
  have c4: "\<forall>xs bs q'. push_all ?q0 xs = Inr (bs, q')
              \<and> length xs = 3 - 1 \<and> (\<forall>b \<in> set bs. b) \<longrightarrow> Push q' 9 = Inr (False, q')"
    using main by (elim conjE)
  have "push_all ?q0 [7, 8] = Inr ([True, True], ?q2)
          \<and> length [7, 8::nat] = 3 - 1 \<and> (\<forall>b \<in> set [True, True]. b)"
    using p by simp
  with c4 have "Push ?q2 9 = Inr (False, ?q2)" by blast
  with r p c1 show ?thesis by blast
qed

section \<open>Properties of the match loop\<close>

lemma fill_heads_values:
  fixes b :: "('w::len) word Book"
  assumes "fill_heads bid ask b = Inr (qty, b2)"
  shows "remainingQuantity (deref b2 bid) = remainingQuantity (deref b bid) - qty"
    and "remainingQuantity (deref b2 ask) = remainingQuantity (deref b ask) - qty"
    and "orderId (deref b2 x) = orderId (deref b x)"
    and "price (deref b2 x) = price (deref b x)"
proof -
  let ?rb = "remainingQuantity (deref b bid)"
  let ?ra = "remainingQuantity (deref b ask)"
  let ?q = "min ?rb ?ra"
  from assms obtain bo where f1: "Fill (deref b bid) ?q = Inr bo"
    by (cases "Fill (deref b bid) ?q") (simp_all add: fill_heads_def Let_def)
  from assms f1 obtain ao where f2: "Fill (deref (store bid bo b) ask) ?q = Inr ao"
    by (cases "Fill (deref (store bid bo b) ask) ?q") (simp_all add: fill_heads_def Let_def)
  from assms f1 f2 have q: "qty = ?q" and b2: "b2 = store ask ao (store bid bo b)"
    by (simp_all add: fill_heads_def Let_def)
  have bo: "bo = (deref b bid)\<lparr>remainingQuantity := ?rb - ?q\<rparr>"
    using Fill_Inr(2) [OF f1] .
  have ao: "ao = (deref (store bid bo b) ask)
                   \<lparr>remainingQuantity := remainingQuantity (deref (store bid bo b) ask) - ?q\<rparr>"
    using Fill_Inr(2) [OF f2] .
  show "orderId (deref b2 x) = orderId (deref b x)" by (simp add: b2 ao bo)
  show "price (deref b2 x) = price (deref b x)" by (simp add: b2 ao bo)
  show "remainingQuantity (deref b2 bid) = ?rb - qty"
    and "remainingQuantity (deref b2 ask) = ?ra - qty"
  proof -
    have "remainingQuantity (deref b2 bid) = ?rb - qty \<and> remainingQuantity (deref b2 ask) = ?ra - qty"
    proof (cases "bid = ask")
      case True
      have "?q \<le> remainingQuantity (deref (store bid bo b) ask)"
        using Fill_Inr(1) [OF f2] .
      then have "?rb \<le> 0" using True bo by simp
      then have z: "?rb = 0" by simp
      then show ?thesis using True by (simp add: b2 ao bo q)
    next
      case False
      then show ?thesis by (simp add: b2 ao bo q)
    qed
    then show "remainingQuantity (deref b2 bid) = ?rb - qty"
      and "remainingQuantity (deref b2 ask) = ?ra - qty" by simp_all
  qed
qed

lemma fill_heads_total:
  fixes b :: "('w::len) word Book"
  assumes "bid \<noteq> ask"
  shows "\<exists>qty b2. fill_heads bid ask b = Inr (qty, b2)"
proof -
  have "min (remainingQuantity (deref b bid)) (remainingQuantity (deref b ask)) \<le> remainingQuantity (deref b bid)"
    and "min (remainingQuantity (deref b bid)) (remainingQuantity (deref b ask)) \<le> remainingQuantity (deref b ask)"
    by simp_all
  then show ?thesis using assms
    by (simp add: fill_heads_def Fill_def Let_def not_less [symmetric])
qed

lemma MatchOrders_cross_total:
  fixes b :: "('w::len) word Book"
  assumes "bids b = (bidPrice, bid # bl') # brest" and "asks b = (askPrice, ask # al') # arest"
    and "bid \<noteq> ask"
  shows "\<exists>t b'. MatchOrders_cross b = Inr (t, b')"
proof -
  from fill_heads_total [OF assms(3), of b] obtain qty b2 where
    "fill_heads bid ask b = Inr (qty, b2)" by blast
  then show ?thesis by (simp add: MatchOrders_cross_def assms(1,2) Let_def)
qed

text \<open>
  C7. Let the first bid level start with the order \<open>bid\<close> and the first ask level with
  the order \<open>ask\<close>. A pass of the match loop over them (which always completes when the
  two are different objects) trades \<open>q\<close>, the smaller of the two remaining quantities:
  the trade it emits records the bid's id and own price with \<open>q\<close> and the ask's id and
  own price with \<open>q\<close>, and afterwards the remaining quantity of each of the two orders is
  what it was minus \<open>q\<close> (as numbers: the subtraction does not wrap around).
\<close>

theorem MatchOrders_cross_conserves:
  fixes b :: "('w::len) word Book"
  assumes bb: "bids b = (bidPrice, bid # bl') # brest"
    and aa: "asks b = (askPrice, ask # al') # arest"
  shows "(bid \<noteq> ask \<longrightarrow> (\<exists>t b'. MatchOrders_cross b = Inr (t, b')))
       \<and> (\<forall>t b'. MatchOrders_cross b = Inr (t, b') \<longrightarrow>
            (let q = min (remainingQuantity (deref b bid)) (remainingQuantity (deref b ask))
             in t = Trade (TradeInfo (orderId (deref b bid)) (price (deref b bid)) q)
                          (TradeInfo (orderId (deref b ask)) (price (deref b ask)) q)
                \<and> remainingQuantity (deref b' bid) = remainingQuantity (deref b bid) - q
                \<and> remainingQuantity (deref b' ask) = remainingQuantity (deref b ask) - q
                \<and> unat (remainingQuantity (deref b' bid)) + unat q
                      = unat (remainingQuantity (deref b bid))
                \<and> unat (remainingQuantity (deref b' ask)) + unat q
                      = unat (remainingQuantity (deref b ask))))"
proof (intro conjI impI allI)
  assume "bid \<noteq> ask"
  with bb aa show "\<exists>t b'. MatchOrders_cross b = Inr (t, b')"
    by (rule MatchOrders_cross_total)
next
  fix t b'
  assume r: "MatchOrders_cross b = Inr (t, b')"
  from r obtain bidPrice' bid' bl'' brest' askPrice' ask' al'' arest' qty b2 b3 b4 where
    bb': "bids b = (bidPrice', bid' # bl'') # brest'" and
    aa': "asks b = (askPrice', ask' # al'') # arest'" and
    fh': "fill_heads bid' ask' b = Inr (qty, b2)" and
    b3: "b3 = (if IsFilled (deref b2 bid')
           then b2\<lparr>bids := (bidPrice', bl'') # brest',
                   orders := map_erase (orderId (deref b2 bid')) (orders b2),
                   orderPool := Release (orderPool b2) bid'\<rparr>
           else b2)" and
    b4: "b4 = (if IsFilled (deref b2 ask')
           then b3\<lparr>asks := (askPrice', al'') # arest',
                   orders := map_erase (orderId (deref b2 ask')) (orders b3),
                   orderPool := Release (orderPool b3) ask'\<rparr>
           else b3)" and
    t': "t = Trade (TradeInfo (orderId (deref b2 bid')) (price (deref b2 bid')) qty)
               (TradeInfo (orderId (deref b2 ask')) (price (deref b2 ask')) qty)" and
    b': "b' = OnOrderMatched (price (deref b2 ask')) qty (IsFilled (deref b2 ask'))
            (OnOrderMatched (price (deref b2 bid')) qty (IsFilled (deref b2 bid')) b4)"
    by (rule MatchOrders_cross_Inr)
  from bb bb' aa aa' have same: "bid' = bid" "ask' = ask" by simp_all
  note fh = fh' [unfolded same]
  have d: "deref b' x = deref b2 x" for x by (simp add: b' b4 b3)
  let ?rb = "remainingQuantity (deref b bid)"
  let ?ra = "remainingQuantity (deref b ask)"
  have le: "min ?rb ?ra \<le> ?rb" "min ?rb ?ra \<le> ?ra" by simp_all
  have u: "unat (?rb - min ?rb ?ra) + unat (min ?rb ?ra) = unat ?rb"
    "unat (?ra - min ?rb ?ra) + unat (min ?rb ?ra) = unat ?ra"
    using le by (simp_all add: unat_sub word_le_nat_alt)
  from fill_heads_Inr(1) [OF fh] fill_heads_values [OF fh] u
  show "let q = min ?rb ?ra
        in t = Trade (TradeInfo (orderId (deref b bid)) (price (deref b bid)) q)
                     (TradeInfo (orderId (deref b ask)) (price (deref b ask)) q)
           \<and> remainingQuantity (deref b' bid) = ?rb - q
           \<and> remainingQuantity (deref b' ask) = ?ra - q
           \<and> unat (remainingQuantity (deref b' bid)) + unat q = unat ?rb
           \<and> unat (remainingQuantity (deref b' ask)) + unat q = unat ?ra"
    by (simp add: Let_def t' same d)
qed

text \<open>
  The theorem on the book where a Buy of 10 meets a Sell of 3 at price 100: the pass
  trades 3, the Buy keeps 7 and the Sell nothing.
\<close>

theorem MatchOrders_cross_conserves_witness:
  "(1::nat) \<noteq> 0 \<and>
   (case MatchOrders_cross crossing_book of
      Inl e \<Rightarrow> False
    | Inr (t, b') \<Rightarrow>
        t = Trade (TradeInfo 1 100 3) (TradeInfo 2 100 3)
        \<and> remainingQuantity (deref b' 1) = 7 \<and> remainingQuantity (deref b' 0) = 0)"
proof -
  have bb: "bids crossing_book = (100, 1 # []) # []"
    and aa: "asks crossing_book = (100, 0 # []) # []"
    by (simp_all add: crossing_book_def)
  have ne: "(1::nat) \<noteq> 0" by simp
  have v: "min (remainingQuantity (deref crossing_book 1)) (remainingQuantity (deref crossing_book 0)) = 3"
    "orderId (deref crossing_book 1) = 1" "price (deref crossing_book 1) = 100"
    "orderId (deref crossing_book 0) = 2" "price (deref crossing_book 0) = 100"
    "remainingQuantity (deref crossing_book 1) = 10" "remainingQuantity (deref crossing_book 0) = 3"
    by (simp_all add: crossing_book_def deref_def Reset_def)
  note main = MatchOrders_cross_conserves [OF bb aa]
  from main ne obtain t b' where r: "MatchOrders_cross crossing_book = Inr (t, b')" by blast
  from main r have "let q = min (remainingQuantity (deref crossing_book 1)) (remainingQuantity (deref crossing_book 0))
             in t = Trade (TradeInfo (orderId (deref crossing_book 1)) (price (deref crossing_book 1)) q)
                          (TradeInfo (orderId (deref crossing_book 0)) (price (deref crossing_book 0)) q)
                \<and> remainingQuantity (deref b' 1) = remainingQuantity (deref crossing_book 1) - q
                \<and> remainingQuantity (deref b' 0) = remainingQuantity (deref crossing_book 0) - q
                \<and> unat (remainingQuantity (deref b' 1)) + unat q
                      = unat (remainingQuantity (deref crossing_book 1))
                \<and> unat (remainingQuantity (deref b' 0)) + unat q
                      = unat (remainingQuantity (deref crossing_book 0))"
    by blast
  then have "t = Trade (TradeInfo 1 100 3) (TradeInfo 2 100 3)
        \<and> remainingQuantity (deref b' 1) = 7 \<and> remainingQuantity (deref b' 0) = 0"
    unfolding Let_def v by simp
  with r ne show ?thesis by simp
qed

lemma MatchOrders_level_no_heads:
  "\<not> heads_present b \<Longrightarrow> MatchOrders_level b trades = Inr (trades, b)"
  by simp

lemma MatchOrders_loop_stuck:
  fixes b :: "('w::len) word Book"
  assumes "crossed_without_heads b"
  shows "MatchOrders_loop b trades = None"
proof (rule ccontr)
  assume "MatchOrders_loop b trades \<noteq> None"
  then obtain r where r: "MatchOrders_loop b trades = Some r" by blast
  have "\<not> crossed_without_heads b"
  proof (rule MatchOrders_loop.raw_induct
      [where P = "\<lambda>b trades r. \<not> crossed_without_heads b", OF _ r])
    fix lp :: "'w word Book \<Rightarrow> 'w word Trade list
                 \<Rightarrow> (error + ('w word Trade list \<times> 'w word Book)) option"
      and x :: "'w word Book" and y :: "'w word Trade list"
      and xa :: "error + ('w word Trade list \<times> 'w word Book)"
    assume IH: "\<And>b trades r. lp b trades = Some r \<Longrightarrow> \<not> crossed_without_heads b"
    assume step: "(if bids x = [] \<or> asks x = [] then Some (Inr (y, x))
         else if fst (hd (bids x)) < fst (hd (asks x)) then Some (Inr (y, x))
              else case MatchOrders_level x y of Inl e \<Rightarrow> Some (Inl e)
                   | Inr (trades', b') \<Rightarrow> lp b' trades') = Some xa"
    show "\<not> crossed_without_heads x"
    proof
      assume c: "crossed_without_heads x"
      then have "MatchOrders_level x y = Inr (y, x)"
        by (simp add: crossed_without_heads_def)
      with c step have "lp x y = Some xa"
        by (simp add: crossed_without_heads_def)
      from IH [OF this] c show False by simp
    qed
  qed
  with assms show False by simp
qed


lemma HandleAddOrder_GoodTillCancel:
  fixes b :: "('w::len) word Book"
  assumes "\<not> map_contains (orders b) (orderId (deref b ord))"
    and "orderType (deref b ord) = GoodTillCancel"
  shows "HandleAddOrder ord b = MatchOrders (OnOrderAdded ord (place ord b))"
  using assms by (simp add: HandleAddOrder_def bind_Market_def)

lemma MatchOrders_stuck_after_level:
  fixes b :: "('w::len) word Book"
  assumes "bids b \<noteq> []" and "asks b \<noteq> []" and "\<not> fst (hd (bids b)) < fst (hd (asks b))"
    and "MatchOrders_level b [] = Inr (trades', b')" and "crossed_without_heads b'"
  shows "MatchOrders b = None"
proof -
  have "MatchOrders_loop b [] = MatchOrders_loop b' trades'"
    using assms(1-4) by (subst MatchOrders_loop.simps) simp
  also have "\<dots> = None" using assms(5) by (rule MatchOrders_loop_stuck)
  finally show ?thesis by (simp add: MatchOrders_def)
qed

text \<open>
  C2 (failing input). On a fresh book, a Buy GoodTillCancel order
  id 1 at price 100 for 10 is added and rests, without a trade. Adding a Sell
  GoodTillCancel order id 2 at price 100 for 10 then never returns: after the cross both
  first levels are empty but still in their maps, and the outer loop of \<^verbatim>\<open>MatchOrders\<close>
  repeats on an unchanged book.
\<close>

theorem MatchOrders_never_returns:
  "case add_new GoodTillCancel 1 Buy 100 10 (new_Book 2 :: 32 word Book) of
     Some (Inr (trades, b)) \<Rightarrow> trades = [] \<and> add_new GoodTillCancel 2 Sell 100 10 b = None
   | _ \<Rightarrow> False"
proof -
  define ready :: "32 word Book \<Rightarrow> bool" where
    "ready = (\<lambda>b. case AcquireOrder GoodTillCancel 2 Sell 100 10 b of (ord, b3) \<Rightarrow>
       \<not> map_contains (orders b3) (orderId (deref b3 ord))
       \<and> orderType (deref b3 ord) = GoodTillCancel
       \<and> bids (OnOrderAdded ord (place ord b3)) \<noteq> []
       \<and> asks (OnOrderAdded ord (place ord b3)) \<noteq> []
       \<and> \<not> fst (hd (bids (OnOrderAdded ord (place ord b3))))
            < fst (hd (asks (OnOrderAdded ord (place ord b3))))
       \<and> (case MatchOrders_level (OnOrderAdded ord (place ord b3)) [] of
            Inl e \<Rightarrow> False
          | Inr (trades', b') \<Rightarrow> crossed_without_heads b'))"
  have first: "case add_new GoodTillCancel 1 Buy 100 10 (new_Book 2 :: 32 word Book) of
     Some (Inr (trades, b)) \<Rightarrow> trades = [] \<and> ready b | _ \<Rightarrow> False"
    unfolding ready_def by code_simp
  have second: "add_new GoodTillCancel 2 Sell 100 10 b = None" if "ready b" for b
  proof -
    obtain ord b3 where a: "AcquireOrder GoodTillCancel 2 Sell 100 10 b = (ord, b3)"
      by (cases "AcquireOrder GoodTillCancel 2 Sell 100 10 b")
    let ?bX = "OnOrderAdded ord (place ord b3)"
    from that a have g: "\<not> map_contains (orders b3) (orderId (deref b3 ord))"
      "orderType (deref b3 ord) = GoodTillCancel"
      and l: "bids ?bX \<noteq> []" "asks ?bX \<noteq> []" "\<not> fst (hd (bids ?bX)) < fst (hd (asks ?bX))"
      and m: "case MatchOrders_level ?bX [] of Inl e \<Rightarrow> False
              | Inr (trades', b') \<Rightarrow> crossed_without_heads b'"
      by (simp_all add: ready_def)
    from m obtain trades' b' where
      "MatchOrders_level ?bX [] = Inr (trades', b')" "crossed_without_heads b'"
      by (cases "MatchOrders_level ?bX []") auto
    with l have "MatchOrders ?bX = None" by (rule MatchOrders_stuck_after_level)
    then show ?thesis
      by (simp add: add_new_def a HandleAddOrder_GoodTillCancel [OF g])
  qed
  from first second show ?thesis
    by (cases "add_new GoodTillCancel 1 Buy 100 10 (new_Book 2 :: 32 word Book)")
       (auto split: sum.splits)
qed

section \<open>The book after an add, a cancel, a FillAndKill\<close>

text \<open>Whatever the side, the limit price and the book, \<^verbatim>\<open>CanMatch\<close> answers false.\<close>

lemma CanMatch_False: "\<not> CanMatch sd p b"
  by (simp add: CanMatch_def)

text \<open>
  C1 (failing input). On a fresh book a Sell
  GoodTillCancel order id 1 at price 100 for 3 is added and rests as the only ask. An
  ask with price 100, which is not above the limit 100, is then resting, and yet
  \<^verbatim>\<open>CanMatch(Buy, 100)\<close> is false.
\<close>

theorem CanMatch_ignores_resting_ask:
  "case add_new GoodTillCancel 1 Sell 100 3 (new_Book 2 :: 32 word Book) of
     Some (Inr (trades, b)) \<Rightarrow>
       asks b = [(100, [1])] \<and> price (deref b 1) = 100 \<and> remainingQuantity (deref b 1) = 3
       \<and> \<not> CanMatch Buy 100 b
   | _ \<Rightarrow> False"
  by code_simp

text \<open>
  C3 (failing input). On a fresh book a Buy GoodTillCancel order id 1
  at price 100 for 10 is added and rests alone at its level. After the cancel of id 1
  the bid map still holds the level 100, with an empty list of orders and no aggregate
  entry: a level is present whose count is 0.
\<close>

theorem cancel_leaves_empty_level:
  "case add_new GoodTillCancel 1 Buy 100 10 (new_Book 2 :: 32 word Book) of
     Some (Inr (trades, b)) \<Rightarrow>
       bids b = [(100, [1])] \<and>
       (case HandleCancelOrder 1 b of
          Inr b' \<Rightarrow> bids b' = [(100, [])] \<and> data b' = [] \<and> orders b' = []
        | Inl e \<Rightarrow> False)
   | _ \<Rightarrow> False"
  by code_simp

text \<open>
  C4 (failing input). A Sell GoodTillCancel
  order id 1 at price 100 for 3 rests on the book. Adding the Buy FillAndKill order
  id 2 at price 100 for 10 (object 0) emits no trade; the Sell keeps its 3; the Buy is
  not on the book; and its object is not returned to the pool, which stays empty.
\<close>

theorem FillAndKill_is_dropped:
  "case add_new GoodTillCancel 1 Sell 100 3 (new_Book 2 :: 32 word Book) of
     Some (Inr (trades, b)) \<Rightarrow>
       asks b = [(100, [1])] \<and> remainingQuantity (deref b 1) = 3 \<and>
       (case add_new FillAndKill 2 Buy 100 10 b of
          Some (Inr (trades', b')) \<Rightarrow>
            trades' = [] \<and> bids b' = [] \<and> asks b' = [(100, [1])]
            \<and> remainingQuantity (deref b' 1) = 3 \<and> orders b' = [(1, 1)]
            \<and> orderId (deref b' 0) = 2 \<and> pool (orderPool b') = []
        | _ \<Rightarrow> False)
   | _ \<Rightarrow> False"
  by code_simp

section \<open>Properties of the pool\<close>

text \<open>
  C6 (counterexample). Acquire on the empty pool hands out a newly allocated object
  (address 0 of the empty store) and leaves the pool exactly as it was: it does not
  fail, and there is nothing in the pool's state that counts the allocation.
\<close>

theorem Acquire_empty_pool_counts_nothing:
  "case Acquire \<lparr>pool = []\<rparr> (empty_Memory :: 32 word Memory) of
     (obj, p, m) \<Rightarrow> obj = 0 \<and> p = \<lparr>pool = []\<rparr> \<and> next_free m = 1"
  by code_simp

text \<open>
  C6 (amended). Acquire on a non-empty pool returns the object at the back of the free
  list and removes it from the list, allocating nothing. Acquire on an empty pool always
  succeeds: it allocates a new, zero-initialised object and returns it, and the pool is
  unchanged (no exhaustion is recorded).
\<close>

theorem Acquire_cases:
  fixes m :: "('w::len) word Memory"
  shows "case Acquire p m of
     (obj, p', m') \<Rightarrow>
       (if pool p = []
        then obj = next_free m \<and> p' = p
             \<and> m' = m\<lparr>objects := (objects m)(obj := zero_Order), next_free := Suc (next_free m)\<rparr>
        else obj = last (pool p) \<and> pool p = pool p' @ [obj] \<and> m' = m)"
  by (simp add: Acquire_def new_Order_def)

section \<open>Properties of the event loop\<close>

lemma process_request_requestQueue:
  "process_request req (e\<lparr>requestQueue := q\<rparr>) =
     (case process_request req e of
        None \<Rightarrow> None
      | Some (Inl er) \<Rightarrow> Some (Inl er)
      | Some (Inr e') \<Rightarrow> Some (Inr (e'\<lparr>requestQueue := q\<rparr>)))"
  by (simp add: process_request_def split: option.splits sum.splits)

lemma process_request_frame:
  assumes "process_request req e = Some (Inr e')"
  shows "requestQueue e' = requestQueue e" and "shutdown e' = shutdown e"
    and "ordersProcessed e' = ordersProcessed e + 1" and "journal e' = journal e"
  using assms
  by (auto simp: process_request_def split: if_splits option.splits sum.splits)

lemma process_all_requestQueue:
  "process_all reqs e = Some (Inr e') \<Longrightarrow>
     process_all reqs (e\<lparr>requestQueue := q\<rparr>) = Some (Inr (e'\<lparr>requestQueue := q\<rparr>))"
proof (induction reqs arbitrary: e)
  case Nil
  then show ?case by simp
next
  case (Cons req reqs)
  from Cons.prems obtain e1 where
    s: "process_request req e = Some (Inr e1)" and r: "process_all reqs e1 = Some (Inr e')"
    by (auto split: option.splits sum.splits)
  from Cons.IH [OF r] s show ?case
    by (simp add: process_request_requestQueue)
qed

lemma process_all_frame:
  "process_all reqs e = Some (Inr e') \<Longrightarrow>
     requestQueue e' = requestQueue e \<and> shutdown e' = shutdown e
     \<and> ordersProcessed e' = ordersProcessed e + length reqs \<and> journal e' = journal e"
proof (induction reqs arbitrary: e)
  case Nil
  then show ?case by simp
next
  case (Cons req reqs)
  from Cons.prems obtain e1 where
    s: "process_request req e = Some (Inr e1)" and r: "process_all reqs e1 = Some (Inr e')"
    by (auto split: option.splits sum.splits)
  from Cons.IH [OF r] process_request_frame [OF s] show ?case by simp
qed

lemma queue_contents_empty:
  "head q = tail q \<Longrightarrow> queue_contents q = []"
  by (simp add: queue_contents_def Size_def)

lemma queue_contents_pop:
  assumes inv: "queue_inv C q" and ne: "head q \<noteq> tail q"
  shows "queue_contents q = buffer q ! head q # queue_contents (q\<lparr>head := (head q + 1) mod C\<rparr>)"
proof -
  have C: "capacity q = C" "head q < C" "tail q < C" using inv by (auto simp: queue_inv_def)
  have sz: "Size q \<noteq> 0" using C ne by (auto simp: Size_def)
  then obtain n where n: "Size q = Suc n" by (cases "Size q") auto
  have sz': "Size (q\<lparr>head := (head q + 1) mod C\<rparr>) = n"
    using Size_Pop [OF inv sz] n by simp
  have "[0..<Suc n] = 0 # map Suc [0..<n]"
    by (simp add: upt_conv_Cons map_Suc_upt del: upt_Suc)
  moreover have "(head q + Suc i) mod C = ((head q + 1) mod C + i) mod C" for i
    by (simp add: mod_add_left_eq)
  moreover have "head q mod C = head q" using C by simp
  ultimately show ?thesis
    using sz' by (simp add: queue_contents_def n C o_def del: upt_Suc)
qed

lemma Size_contents: "length (queue_contents q) = Size q"
  by (simp add: queue_contents_def)

text \<open>
  C10. Let the shutdown flag be set while the inbound ring holds some requests, and let
  handling these requests one after the other, oldest first, complete without an
  exception. Then the processing loop returns, and only after it has popped and
  handled every one of them: its final state is the state after the last request with
  the ring empty, and the counter of processed requests has grown by the number of
  requests that were waiting.
\<close>

theorem ProcessRequests_drains:
  fixes e :: "('w::len) word Orderbook"
  assumes inv: "queue_inv C (requestQueue e)"
    and sd: "shutdown e"
    and run: "process_all (queue_contents (requestQueue e)) e = Some (Inr e')"
  shows "ProcessRequests e =
           Some (Inr (e'\<lparr>requestQueue := (requestQueue e)\<lparr>head := tail (requestQueue e)\<rparr>\<rparr>))
         \<and> IsEmpty ((requestQueue e)\<lparr>head := tail (requestQueue e)\<rparr>)
         \<and> ordersProcessed e' = ordersProcessed e + Size (requestQueue e)"
proof -
  have main: "ProcessRequests e =
           Some (Inr (e'\<lparr>requestQueue := (requestQueue e)\<lparr>head := tail (requestQueue e)\<rparr>\<rparr>))"
    using inv sd run
  proof (induction "Size (requestQueue e)" arbitrary: e e')
    case 0
    let ?q = "requestQueue e"
    have ht: "head ?q = tail ?q"
      using "0.hyps" "0.prems"(1) by (auto simp: Size_def queue_inv_def split: if_splits)
    then have "e' = e" using "0.prems"(3) by (simp add: queue_contents_empty)
    moreover have "?q\<lparr>head := tail ?q\<rparr> = ?q" using ht by simp
    moreover have "ProcessRequests e = Some (Inr e)"
      using ht "0.prems"(2) by (subst ProcessRequests.simps) (simp add: IsEmpty_def)
    ultimately show ?case by simp
  next
    case (Suc n)
    let ?q = "requestQueue e"
    let ?q1 = "?q\<lparr>head := (head ?q + 1) mod C\<rparr>"
    let ?r = "buffer ?q ! head ?q"
    have sz: "Size ?q \<noteq> 0" using Suc.hyps(2) by simp
    have ne: "head ?q \<noteq> tail ?q" using sz by (auto simp: Size_def)
    have pop: "Pop ?q = Inr (Some ?r, ?q1)"
      using Pop_result [OF Suc.prems(1)] sz by simp
    have cont: "queue_contents ?q = ?r # queue_contents ?q1"
      using Suc.prems(1) ne by (rule queue_contents_pop)
    from Suc.prems(3) cont obtain e1 where
      s: "process_request ?r e = Some (Inr e1)" and
      r: "process_all (queue_contents ?q1) e1 = Some (Inr e')"
      by (auto split: option.splits sum.splits)
    let ?e1 = "e1\<lparr>requestQueue := ?q1\<rparr>"
    have s1: "process_request ?r (e\<lparr>requestQueue := ?q1\<rparr>) = Some (Inr ?e1)"
      using s by (simp add: process_request_requestQueue)
    have q1: "requestQueue ?e1 = ?q1" by simp
    have inv1: "queue_inv C (requestQueue ?e1)"
      using Pop_inv [OF Suc.prems(1) pop] by simp
    have sd1: "shutdown ?e1" using process_request_frame(2) [OF s] Suc.prems(2) by simp
    have n1: "n = Size (requestQueue ?e1)"
      using Size_Pop [OF Suc.prems(1) sz] Suc.hyps(2) by simp
    have r1: "process_all (queue_contents (requestQueue ?e1)) ?e1
                = Some (Inr (e'\<lparr>requestQueue := ?q1\<rparr>))"
      using process_all_requestQueue [OF r, of ?q1] by simp
    have IH: "ProcessRequests ?e1 =
        Some (Inr (e'\<lparr>requestQueue := ?q1\<rparr>
                \<lparr>requestQueue := (requestQueue ?e1)\<lparr>head := tail (requestQueue ?e1)\<rparr>\<rparr>))"
      by (rule Suc.hyps(1) [OF n1 inv1 sd1 r1])
    have "ProcessRequests e = ProcessRequests ?e1"
      using ne pop s1 by (subst ProcessRequests.simps) (simp add: IsEmpty_def)
    with IH show ?case by simp
  qed
  have "requestQueue e' = requestQueue e \<and> shutdown e' = shutdown e
     \<and> ordersProcessed e' = ordersProcessed e + length (queue_contents (requestQueue e))
     \<and> journal e' = journal e"
    using run by (rule process_all_frame)
  with main show ?thesis by (simp add: IsEmpty_def Size_contents)
qed


text \<open>
  The theorem on an engine with two Add requests waiting at shutdown: both orders are
  on the book when the loop returns.
\<close>

theorem ProcessRequests_drains_witness:
  "queue_inv 4 (requestQueue draining_engine) \<and> shutdown draining_engine
   \<and> Size (requestQueue draining_engine) = 2
   \<and> (case ProcessRequests draining_engine of
         Some (Inr e2) \<Rightarrow>
           IsEmpty (requestQueue e2) \<and> ordersProcessed e2 = 2
           \<and> bids (book e2) = [(100, [1])] \<and> asks (book e2) = [(101, [0])]
       | _ \<Rightarrow> False)"
proof -
  have inv: "queue_inv 4 (requestQueue draining_engine)"
    by (simp add: queue_inv_def draining_engine_def)
  have sd: "shutdown draining_engine" by (simp add: draining_engine_def)
  have sz: "Size (requestQueue draining_engine) = 2"
    by (simp add: Size_def draining_engine_def)
  have "case process_all (queue_contents (requestQueue draining_engine)) draining_engine of
          Some (Inr e') \<Rightarrow> bids (book e') = [(100, [1])] \<and> asks (book e') = [(101, [0])]
        | _ \<Rightarrow> False"
    by code_simp
  then obtain e' where
    run: "process_all (queue_contents (requestQueue draining_engine)) draining_engine = Some (Inr e')"
    and bk: "bids (book e') = [(100, [1])]" "asks (book e') = [(101, [0])]"
    by (auto split: option.splits sum.splits)
  from ProcessRequests_drains [OF inv sd run] bk inv sd sz
  show ?thesis by (simp add: draining_engine_def IsEmpty_def)
qed

text \<open>
  C5 (failing input). An order drawn from the pool (Buy GoodTillCancel
  id 1 at price 100 for 10) passes the risk gate. Processing its Add request puts the
  order on the book and counts the request as processed, and the journal is as empty
  afterwards as it was before.
\<close>

theorem admitted_request_is_not_journaled:
  "case AcquireOrder GoodTillCancel 1 Buy 100 10 (new_Book 2 :: 32 word Book) of
     (ord, b) \<Rightarrow>
       CheckOrder default_Config (deref b ord) = Allowed \<and>
       (case process_request (empty_Request\<lparr>req_type := Type_Add, req_order := ord\<rparr>)
               ((new_Orderbook 4 2)\<lparr>book := b\<rparr>) of
          Some (Inr e') \<Rightarrow>
            bids (book e') = [(100, [ord])] \<and> ordersProcessed e' = 1 \<and> journal e' = []
        | _ \<Rightarrow> False)"
  by code_simp

end
